theory Spec2Isabelle
  imports Complex_Main
begin

section \<open>The actor run loop of picas (src/picas/actors.py)\<close>

text \<open>
  The actor talks to three collaborators whose code is not part of the actor: the
  document store (\<open>db.save\<close>, \<open>db.get\<close>), the task iterator and the user's
  \<open>process_task\<close>. Their behaviour is an input of the model: every task the
  iterator yields comes as an \<open>episode\<close> holding what \<open>process_task\<close> does with
  it, what the store replies to each save attempt, what \<open>stop_function\<close> returns
  and what \<open>Timer.elapsed\<close> reads after the cycle. What the actor itself does is
  returned as a list of events in program order, next to the new actor state and
  the way the call ended.
\<close>

subsection \<open>Exceptions\<close>

text \<open>
  \<open>ResourceConflict\<close> is what \<open>except ResourceConflict\<close> matches,
  \<open>SystemExit\<close> is what \<open>exit(0)\<close> raises and is not an instance of
  \<open>Exception\<close>, so \<open>except Exception\<close> lets it pass. \<open>exc_type\<close> is the text
  of \<open>type(ex)\<close> and \<open>exc_str\<close> the text of \<open>ex\<close> under \<open>format\<close>.
\<close>

datatype exc_class = ResourceConflict | OtherException | SystemExit

datatype exn = Exn (exc_class: exc_class) (exc_type: string) (exc_str: string)

definition is_Exception :: "exn \<Rightarrow> bool" where
  "is_Exception ex = (exc_class ex \<noteq> SystemExit)"

definition ValueError :: "string \<Rightarrow> exn" where
  "ValueError msg = Exn OtherException ''<class 'ValueError'>'' msg"

definition SystemExit0 :: exn where
  "SystemExit0 = Exn SystemExit ''<class 'SystemExit'>'' ''0''"

text \<open>How a call ends: it returns, it raises, or it has not returned (the store
  kept answering with conflicts for as long as the environment was scripted).\<close>

datatype result = Normal | Raise exn | NoReturn

subsection \<open>Tasks, subprocesses, events\<close>

record task =
  task_id :: string
  task_rev :: string
  task_lock :: int
  task_done :: int
  payload :: "(string \<times> string) list"
  annotations :: "(string \<times> string) list"

text \<open>A tracked \<open>Popen\<close> handle: \<open>alive\<close> is \<open>poll() is None\<close>, \<open>exits_in_grace\<close>
  says that \<open>communicate(timeout=30)\<close> returns instead of raising
  \<open>TimeoutExpired\<close>.\<close>

record proc =
  alive :: bool
  exits_in_grace :: bool

datatype event =
    SetupHandler
  | PrepareEnv
  | CleanupEnv
  | PrepareRun
  | CleanupRun
  | ProcessTask task
  | TaskError string exn
  | LogInfo string
  | LogShutdown int
  | Save task
  | Get string
  | Terminate
  | Communicate "nat option"
  | Kill
  | Exit int

subsection \<open>The store's replies\<close>

datatype save_reply = SaveOk | SaveRaises exn

datatype get_reply = GetOk string | GetRaises exn

text \<open>One save attempt of the retry loop: the reply to \<open>db.save(task)\<close> and the
  reply \<open>db.get(task.id)\<close> gives if the loop asks (\<open>GetOk r\<close>: a document whose
  \<open>rev\<close> is \<open>r\<close>).\<close>

type_synonym attempt = "save_reply \<times> get_reply"

text \<open>
  The loop \<open>while True: try: db.save(task); break; except ResourceConflict: ...\<close>
  of \<open>_run\<close>. It returns the events, the local task and how it ended.
\<close>

fun save_loop :: "attempt list \<Rightarrow> task \<Rightarrow> event list \<times> task \<times> result" where
  "save_loop [] t = ([], t, NoReturn)"
| "save_loop ((SaveOk, g) # as) t = ([Save t], t, Normal)"
| "save_loop ((SaveRaises ex, g) # as) t =
     (if exc_class ex = ResourceConflict then
        (case g of
           GetOk r \<Rightarrow>
             (case save_loop as (t\<lparr>task_rev := r\<rparr>) of
                (evs, t', res) \<Rightarrow> (Save t # Get (task_id t) # evs, t', res))
         | GetRaises ex' \<Rightarrow> ([Save t, Get (task_id t)], t, Raise ex'))
      else ([Save t], t, Raise ex))"

subsection \<open>The actor and its constructor\<close>

datatype iterator = TaskViewIterator string string | GivenIterator string

text \<open>The fields of \<open>AbstractRunActor\<close>. \<open>token_reset_values\<close> is \<open>None\<close> or a
  list read at the indices 0 and 1; \<open>current_task\<close> and \<open>subprocess\<close> are \<open>None\<close>
  or an object (a task document and a \<open>Popen\<close> handle are both true in an
  \<open>if\<close>).\<close>

record actor =
  db :: string
  iterator :: iterator
  token_reset_values :: "(int \<times> int) option"
  current_task :: "task option"
  subprocess :: "proc option"
  tasks_processed :: nat

text \<open>\<open>AbstractRunActor.__init__(db, iterator, view, token_reset_values)\<close>.\<close>

definition AbstractRunActor_init ::
  "string option \<Rightarrow> iterator option \<Rightarrow> string \<Rightarrow> (int \<times> int) option \<Rightarrow> exn + actor" where
  "AbstractRunActor_init d it view trv =
     (case d of
        None \<Rightarrow> Inl (ValueError ''Database must be initialized'')
      | Some d' \<Rightarrow>
          Inr \<lparr>db = d',
               iterator = (case it of None \<Rightarrow> TaskViewIterator d' view | Some i \<Rightarrow> i),
               token_reset_values = trv,
               current_task = None,
               subprocess = None,
               tasks_processed = 0\<rparr>)"

subsection \<open>The shutdown handler\<close>

text \<open>The \<open>if self.subprocess and self.subprocess.poll() is None\<close> block.\<close>

definition stop_subprocess :: "proc option \<Rightarrow> event list \<times> proc option" where
  "stop_subprocess sp =
     (case sp of
        None \<Rightarrow> ([], None)
      | Some p \<Rightarrow>
          if alive p then
            ([LogInfo ''Terminating execution of token'', Terminate, Communicate (Some 30)] @
             (if exits_in_grace p then []
              else [LogInfo ''Killing subprocess'', Kill, Communicate None]),
             Some (p\<lparr>alive := False\<rparr>))
          else ([], Some p))"

text \<open>
  \<open>handler(signum, frame)\<close>. \<open>reply\<close> is what the store answers if the handler
  saves. The handler never returns: it ends in \<open>exit(0)\<close>, which raises
  \<open>SystemExit\<close> in the interrupted code, or in the exception of its one
  \<open>db.save\<close>, which nothing in the handler catches.
\<close>

definition handler :: "int \<Rightarrow> save_reply \<Rightarrow> actor \<Rightarrow> event list \<times> actor \<times> exn" where
  "handler signum reply s =
     (case stop_subprocess (subprocess s) of
        (evs, sp) \<Rightarrow>
          let evs1 = LogShutdown signum # evs; s1 = s\<lparr>subprocess := sp\<rparr> in
          (case current_task s1 of
             None \<Rightarrow> (evs1 @ [CleanupEnv, Exit 0], s1, SystemExit0)
           | Some t \<Rightarrow>
               (case token_reset_values s1 of
                  None \<Rightarrow> (evs1 @ [CleanupEnv, Exit 0], s1, SystemExit0)
                | Some (l, d) \<Rightarrow>
                    let t' = t\<lparr>task_lock := l, task_done := d\<rparr>;
                        s2 = s1\<lparr>current_task := Some t'\<rparr>
                    in (case reply of
                          SaveOk \<Rightarrow> (evs1 @ [Save t', CleanupEnv, Exit 0], s2, SystemExit0)
                        | SaveRaises ex \<Rightarrow> (evs1 @ [Save t'], s2, ex)))))"

subsection \<open>One task cycle\<close>

text \<open>
  What \<open>process_task(task)\<close> does: it returns, leaving the task as given here; it
  raises, leaving the task as given here; or a termination signal arrives while
  it runs, with the task and the tracked subprocess as given here, and the
  handler runs on top of it (Python runs a signal handler in the main thread,
  and what the handler raises is raised at the point that was interrupted).
\<close>

datatype outcome =
    Returns task
  | Raises exn task
  | Signalled task "proc option" int save_reply

record episode =
  ep_task :: task
  ep_outcome :: outcome
  ep_store :: "attempt list"
  ep_stop :: bool
  ep_elapsed :: real

text \<open>Modelled from the spec: \<open>Task.error(msg, exception=ex)\<close> of
  picas/documents.py, which is not among the sources. The spec's data model gives
  the task a mutable error-annotation slot, and the cycle attaches "an error-kind
  tag plus message" to it.\<close>

definition task_error :: "string \<Rightarrow> exn \<Rightarrow> task \<Rightarrow> task" where
  "task_error msg ex t = t\<lparr>annotations := annotations t @ [(exc_type ex, msg)]\<rparr>"

definition processing_msg :: "exn \<Rightarrow> string" where
  "processing_msg ex =
     ''Exception '' @ exc_type ex @ '' occurred during processing: '' @ exc_str ex"

fun process_task :: "outcome \<Rightarrow> actor \<Rightarrow> event list \<times> actor \<times> task \<times> exn option" where
  "process_task (Returns t) s = ([], s\<lparr>current_task := Some t\<rparr>, t, None)"
| "process_task (Raises ex t) s = ([], s\<lparr>current_task := Some t\<rparr>, t, Some ex)"
| "process_task (Signalled t sp signum reply) s =
     (case handler signum reply (s\<lparr>current_task := Some t, subprocess := sp\<rparr>) of
        (evs, s', ex) \<Rightarrow>
          (evs, s', (case current_task s' of Some t' \<Rightarrow> t' | None \<Rightarrow> t), Some ex))"

text \<open>The tail of \<open>_run\<close>: the save loop, \<open>cleanup_run\<close>, the counter. The local
  task and \<open>self.current_task\<close> are one object.\<close>

definition persist :: "attempt list \<Rightarrow> event list \<Rightarrow> task \<Rightarrow> actor \<Rightarrow> event list \<times> actor \<times> result" where
  "persist as evs t s =
     (case save_loop as t of
        (evs', t', res) \<Rightarrow>
          (case res of
             Normal \<Rightarrow>
               (evs @ evs' @ [CleanupRun],
                s\<lparr>current_task := Some t', tasks_processed := tasks_processed s + 1\<rparr>,
                Normal)
           | Raise ex \<Rightarrow> (evs @ evs', s\<lparr>current_task := Some t'\<rparr>, Raise ex)
           | NoReturn \<Rightarrow> (evs @ evs', s\<lparr>current_task := Some t'\<rparr>, NoReturn)))"

text \<open>\<open>AbstractRunActor._run(task)\<close>.\<close>

definition run_task :: "episode \<Rightarrow> actor \<Rightarrow> event list \<times> actor \<times> result" where
  "run_task ep s =
     (case process_task (ep_outcome ep) (s\<lparr>current_task := Some (ep_task ep)\<rparr>) of
        (evs, s', t, raised) \<Rightarrow>
          let evs0 = PrepareRun # ProcessTask (ep_task ep) # evs in
          (case raised of
             None \<Rightarrow> persist (ep_store ep) evs0 t s'
           | Some ex \<Rightarrow>
               if is_Exception ex then
                 let msg = processing_msg ex in
                 persist (ep_store ep) (evs0 @ [TaskError msg ex, LogInfo msg])
                   (task_error msg ex t) s'
               else (evs0, s', Raise ex)))"

subsection \<open>The run loops\<close>

text \<open>The \<open>for\<close> loop of \<open>AbstractRunActor.run\<close>.\<close>

fun abstract_loop :: "episode list \<Rightarrow> actor \<Rightarrow> event list \<times> actor \<times> result" where
  "abstract_loop [] s = ([], s, Normal)"
| "abstract_loop (ep # eps) s =
     (case run_task ep s of
        (evs, s', res) \<Rightarrow>
          (case res of
             Normal \<Rightarrow>
               (case abstract_loop eps (s'\<lparr>current_task := None\<rparr>) of
                  (evs', s'', res') \<Rightarrow> (evs @ evs', s'', res'))
           | Raise ex \<Rightarrow> (evs, s', Raise ex)
           | NoReturn \<Rightarrow> (evs, s', NoReturn)))"

text \<open>\<open>try: ... finally: self.cleanup_env()\<close>: the teardown runs when the loop
  returns or raises, and what was raised goes on.\<close>

definition finally_cleanup_env :: "event list \<times> actor \<times> result \<Rightarrow> event list \<times> actor \<times> result" where
  "finally_cleanup_env r =
     (case r of
        (evs, s, NoReturn) \<Rightarrow> (evs, s, NoReturn)
      | (evs, s, res) \<Rightarrow> (evs @ [CleanupEnv], s, res))"

definition prepend :: "event list \<Rightarrow> event list \<times> actor \<times> result \<Rightarrow> event list \<times> actor \<times> result" where
  "prepend evs0 r = (case r of (evs, s, res) \<Rightarrow> (evs0 @ evs, s, res))"

text \<open>\<open>AbstractRunActor.run()\<close>.\<close>

definition AbstractRunActor_run :: "episode list \<Rightarrow> actor \<Rightarrow> event list \<times> actor \<times> result" where
  "AbstractRunActor_run eps s =
     prepend [SetupHandler, PrepareEnv] (finally_cleanup_env (abstract_loop eps s))"

subsection \<open>Floating-point times\<close>

text \<open>
  \<open>Timer.elapsed()\<close> is a Python float and \<open>elapsed + avg_time_factor\<close> is
  computed in floats: IEEE 754 doubles, with 53 significant bits and rounding to
  the nearest double, ties to the even one. A double is modelled by the real
  number it stands for. \<open>expo x\<close> is the binary exponent of \<open>x\<close>, \<open>ulp x\<close> the
  distance between neighbouring doubles around \<open>x\<close>, \<open>round53\<close> the rounding of
  a real number to a double and \<open>fadd\<close> the sum of two doubles as the machine
  gives it. Infinities and NaN are left out, and the exponent is not bounded:
  for doubles the sum is the machine's as long as it does not overflow, and a
  sum that overflows is greater than every double here as in Python. A comparison
  of two doubles is exact.
\<close>

definition round_even :: "real \<Rightarrow> int" where
  "round_even r =
     (let f = \<lfloor>r\<rfloor> in
      if r - of_int f < 1 / 2 then f
      else if 1 / 2 < r - of_int f then f + 1
      else if even f then f else f + 1)"

definition expo :: "real \<Rightarrow> int" where
  "expo x = \<lfloor>log 2 \<bar>x\<bar>\<rfloor>"

definition ulp :: "real \<Rightarrow> real" where
  "ulp x = 2 powr (of_int (expo x - 52))"

definition round53 :: "real \<Rightarrow> real" where
  "round53 x = (if x = 0 then 0 else ulp x * of_int (round_even (x / ulp x)))"

definition fadd :: "real \<Rightarrow> real \<Rightarrow> real" where
  "fadd x y = round53 (x + y)"

definition is_double :: "real \<Rightarrow> bool" where
  "is_double x = (round53 x = x)"

text \<open>The arguments of \<open>RunActor.run\<close>. \<open>stop_function\<close> says whether one was
  passed; what it returns after a cycle is the episode's \<open>ep_stop\<close>. The times
  (\<open>max_time\<close>, \<open>avg_time_factor\<close>, an episode's \<open>ep_elapsed\<close>) are doubles.\<close>

record stop_criteria =
  max_time :: "real option"
  avg_time_factor :: real
  max_tasks :: int
  stop_function :: bool

text \<open>The three \<open>break\<close> tests in the body of \<open>RunActor.run\<close>, in their order.\<close>

definition should_break :: "stop_criteria \<Rightarrow> episode \<Rightarrow> actor \<Rightarrow> bool" where
  "should_break c ep s =
     (if stop_function c \<and> ep_stop ep then True
      else if max_tasks c \<noteq> 0 \<and> int (tasks_processed s) = max_tasks c then True
      else (case max_time c of
              None \<Rightarrow> False
            | Some m \<Rightarrow> fadd (ep_elapsed ep) (avg_time_factor c) > m))"

text \<open>The \<open>for\<close> loop of \<open>RunActor.run\<close>: \<open>self.current_task = None\<close> is the last
  statement of the body, after the three tests.\<close>

fun stop_loop :: "stop_criteria \<Rightarrow> episode list \<Rightarrow> actor \<Rightarrow> event list \<times> actor \<times> result" where
  "stop_loop c [] s = ([], s, Normal)"
| "stop_loop c (ep # eps) s =
     (case run_task ep s of
        (evs, s', res) \<Rightarrow>
          (case res of
             Normal \<Rightarrow>
               if should_break c ep s' then (evs, s', Normal)
               else (case stop_loop c eps (s'\<lparr>current_task := None\<rparr>) of
                       (evs', s'', res') \<Rightarrow> (evs @ evs', s'', res'))
           | Raise ex \<Rightarrow> (evs, s', Raise ex)
           | NoReturn \<Rightarrow> (evs, s', NoReturn)))"

text \<open>\<open>RunActor.run(max_time, avg_time_factor, max_tasks, stop_function)\<close>.\<close>

definition RunActor_run :: "stop_criteria \<Rightarrow> episode list \<Rightarrow> actor \<Rightarrow> event list \<times> actor \<times> result" where
  "RunActor_run c eps s =
     prepend [PrepareEnv, SetupHandler] (finally_cleanup_env (stop_loop c eps s))"

subsection \<open>Reading a run\<close>

fun saved_docs :: "event list \<Rightarrow> task list" where
  "saved_docs [] = []"
| "saved_docs (Save t # evs) = t # saved_docs evs"
| "saved_docs (e # evs) = saved_docs evs"

definition conflict :: "attempt \<Rightarrow> bool" where
  "conflict a =
     (case a of
        (SaveRaises ex, GetOk r) \<Rightarrow> exc_class ex = ResourceConflict
      | _ \<Rightarrow> False)"

abbreviation events :: "event list \<times> 'a \<times> 'b \<Rightarrow> event list" where
  "events r \<equiv> fst r"

abbreviation final :: "event list \<times> 'a \<times> 'b \<Rightarrow> 'a" where
  "final r \<equiv> fst (snd r)"

abbreviation ended :: "event list \<times> 'a \<times> 'b \<Rightarrow> 'b" where
  "ended r \<equiv> snd (snd r)"

subsection \<open>Sample inputs\<close>

definition conflict_exn :: exn where
  "conflict_exn = Exn ResourceConflict ''<class 'couchdb.http.ResourceConflict'>'' ''conflict''"

definition io_error :: exn where
  "io_error = Exn OtherException ''<class 'OSError'>'' ''connection refused''"

definition token :: "string \<Rightarrow> task" where
  "token i = \<lparr>task_id = i, task_rev = ''1-a'', task_lock = 1, task_done = 0,
              payload = [(''input'', ''42'')], annotations = []\<rparr>"

definition fresh_actor :: actor where
  "fresh_actor = \<lparr>db = ''picas'', iterator = TaskViewIterator ''picas'' ''todo'',
                   token_reset_values = Some (0, 0), current_task = None,
                   subprocess = None, tasks_processed = 0\<rparr>"

text \<open>An episode in which the task is processed without error, the first save
  succeeds, \<open>stop_function\<close> would say no and the clock reads \<open>e\<close>.\<close>

definition quiet :: "string \<Rightarrow> real \<Rightarrow> episode" where
  "quiet i e = \<lparr>ep_task = token i,
                ep_outcome = Returns ((token i)\<lparr>task_done := 1\<rparr>),
                ep_store = [(SaveOk, GetOk [])],
                ep_stop = False,
                ep_elapsed = e\<rparr>"

definition two_conflicts :: "attempt list" where
  "two_conflicts = [(SaveRaises conflict_exn, GetOk ''2-b''), (SaveRaises conflict_exn, GetOk ''3-c'')]"


definition ten_two :: stop_criteria where
  "ten_two = \<lparr>max_time = Some 10, avg_time_factor = 2, max_tasks = 0, stop_function = False\<rparr>"

text \<open>Counting task cycles and teardowns in a run, and the events of the store.\<close>

definition cycles :: "event list \<Rightarrow> nat" where
  "cycles evs = length (filter (\<lambda>e. e = PrepareRun) evs)"

definition teardowns :: "event list \<Rightarrow> nat" where
  "teardowns evs = length (filter (\<lambda>e. e = CleanupEnv) evs)"

definition store_event :: "event \<Rightarrow> bool" where
  "store_event e = (case e of Save u \<Rightarrow> True | Get i \<Rightarrow> True | _ \<Rightarrow> False)"

definition one_task :: stop_criteria where
  "one_task = \<lparr>max_time = None, avg_time_factor = 0, max_tasks = 1, stop_function = False\<rparr>"

definition three_tasks :: stop_criteria where
  "three_tasks = \<lparr>max_time = None, avg_time_factor = 0, max_tasks = 3, stop_function = False\<rparr>"

definition signalled :: "string \<Rightarrow> episode" where
  "signalled i = (quiet i 1)\<lparr>ep_outcome := Signalled (token i) None 15 SaveOk\<rparr>"

definition store_down :: "string \<Rightarrow> episode" where
  "store_down i = (quiet i 1)\<lparr>ep_store := [(SaveRaises io_error, GetOk [])]\<rparr>"

definition failing :: "string \<Rightarrow> episode" where
  "failing i = (quiet i 1)\<lparr>ep_outcome := Raises io_error (token i)\<rparr>"

definition ten_quiet :: "episode list" where
  "ten_quiet = map (\<lambda>k. quiet (replicate k CHR ''t'') (real k)) [1..<11]"

section \<open>The save loop\<close>

lemma conflictE: "conflict a \<Longrightarrow> \<exists>ex r. a = (SaveRaises ex, GetOk r) \<and> exc_class ex = ResourceConflict"
  by (cases a) (auto simp: conflict_def split: save_reply.splits get_reply.splits)

lemma save_loop_conflict_step:
  "exc_class ex = ResourceConflict \<Longrightarrow>
   save_loop ((SaveRaises ex, GetOk r) # as) t =
     (Save t # Get (task_id t) # events (save_loop as (t\<lparr>task_rev := r\<rparr>)),
      snd (save_loop as (t\<lparr>task_rev := r\<rparr>)))"
  by (simp split: prod.splits)

lemma save_loop_then_ok:
  "\<forall>a\<in>set cs. conflict a \<Longrightarrow>
   ended (save_loop (cs @ (SaveOk, g) # rest) t) = Normal \<and>
   length (saved_docs (events (save_loop (cs @ (SaveOk, g) # rest) t))) = Suc (length cs)"
proof (induction cs arbitrary: t)
  case Nil then show ?case by simp
next
  case (Cons a cs)
  from Cons.prems have "conflict a" by simp
  then obtain ex r where a: "a = (SaveRaises ex, GetOk r)" and c: "exc_class ex = ResourceConflict"
    using conflictE by blast
  from Cons.prems have "\<forall>a\<in>set cs. conflict a" by simp
  from Cons.IH[OF this, of "t\<lparr>task_rev := r\<rparr>"] show ?case
    unfolding a append_Cons save_loop_conflict_step[OF c] by simp
qed


lemma save_loop_then_error:
  "\<forall>a\<in>set cs. conflict a \<Longrightarrow> exc_class ex \<noteq> ResourceConflict \<Longrightarrow>
   ended (save_loop (cs @ (SaveRaises ex, g) # rest) t) = Raise ex \<and>
   length (saved_docs (events (save_loop (cs @ (SaveRaises ex, g) # rest) t))) = Suc (length cs)"
proof (induction cs arbitrary: t)
  case Nil then show ?case by simp
next
  case (Cons a cs)
  from Cons.prems have "conflict a" by simp
  then obtain ex' r where a: "a = (SaveRaises ex', GetOk r)" and c: "exc_class ex' = ResourceConflict"
    using conflictE by blast
  from Cons.prems have "\<forall>a\<in>set cs. conflict a" by simp
  from Cons.IH[OF this Cons.prems(2), of "t\<lparr>task_rev := r\<rparr>"] show ?case
    unfolding a append_Cons save_loop_conflict_step[OF c] by simp
qed

lemma save_loop_all_conflicts:
  "\<forall>a\<in>set cs. conflict a \<Longrightarrow>
   ended (save_loop cs t) = NoReturn \<and> length (saved_docs (events (save_loop cs t))) = length cs"
proof (induction cs arbitrary: t)
  case Nil then show ?case by simp
next
  case (Cons a cs)
  from Cons.prems have "conflict a" by simp
  then obtain ex' r where a: "a = (SaveRaises ex', GetOk r)" and c: "exc_class ex' = ResourceConflict"
    using conflictE by blast
  from Cons.prems have "\<forall>a\<in>set cs. conflict a" by simp
  from Cons.IH[OF this, of "t\<lparr>task_rev := r\<rparr>"] show ?case
    unfolding a save_loop_conflict_step[OF c] by simp
qed

lemma save_loop_normal_only:
  "ended (save_loop as t) = Normal \<Longrightarrow>
   \<exists>cs g rest. as = cs @ (SaveOk, g) # rest \<and> (\<forall>a\<in>set cs. conflict a)"
proof (induction as t rule: save_loop.induct)
  case (1 t) then show ?case by simp
next
  case (2 g as t)
  have "(SaveOk, g) # as = [] @ (SaveOk, g) # as \<and> (\<forall>a\<in>set ([]::attempt list). conflict a)" by simp
  then show ?case by blast
next
  case (3 ex g as t)
  show ?case
  proof (cases "exc_class ex = ResourceConflict")
    case False with 3(2) show ?thesis by simp
  next
    case True
    show ?thesis
    proof (cases g)
      case (GetRaises ex') with True 3(2) show ?thesis by simp
    next
      case (GetOk r)
      from 3(2) have "ended (save_loop as (t\<lparr>task_rev := r\<rparr>)) = Normal"
        unfolding GetOk save_loop_conflict_step[OF True] by simp
      from 3(1)[OF True GetOk this] obtain cs g' rest where
        h: "as = cs @ (SaveOk, g') # rest" "\<forall>a\<in>set cs. conflict a" by blast
      have "(SaveRaises ex, g) # as = ((SaveRaises ex, g) # cs) @ (SaveOk, g') # rest"
        using h by simp
      moreover have "\<forall>a\<in>set ((SaveRaises ex, g) # cs). conflict a"
        using h True GetOk by (simp add: conflict_def)
      ultimately show ?thesis by blast
    qed
  qed
qed

lemma rev_back:
  assumes "u\<lparr>task_rev := r\<rparr> = t\<lparr>task_rev := r\<rparr>"
  shows "u\<lparr>task_rev := task_rev t\<rparr> = t"
proof -
  have "(u\<lparr>task_rev := r\<rparr>)\<lparr>task_rev := task_rev t\<rparr> = (t\<lparr>task_rev := r\<rparr>)\<lparr>task_rev := task_rev t\<rparr>"
    using assms by simp
  then show ?thesis by simp
qed

lemma save_loop_only_rev:
  "(final (save_loop as t))\<lparr>task_rev := task_rev t\<rparr> = t \<and>
   (\<forall>u\<in>set (saved_docs (events (save_loop as t))). u\<lparr>task_rev := task_rev t\<rparr> = t)"
proof (induction as t rule: save_loop.induct)
  case (1 t) then show ?case by simp
next
  case (2 g as t) then show ?case by simp
next
  case (3 ex g as t)
  show ?case
  proof (cases "exc_class ex = ResourceConflict")
    case False then show ?thesis by simp
  next
    case True
    show ?thesis
    proof (cases g)
      case (GetRaises ex') with True show ?thesis by simp
    next
      case (GetOk r)
      from 3[OF True GetOk]
      have a: "(final (save_loop as (t\<lparr>task_rev := r\<rparr>)))\<lparr>task_rev := r\<rparr> = t\<lparr>task_rev := r\<rparr>"
        and b: "\<forall>u\<in>set (saved_docs (events (save_loop as (t\<lparr>task_rev := r\<rparr>)))). u\<lparr>task_rev := r\<rparr> = t\<lparr>task_rev := r\<rparr>"
        by simp_all
      show ?thesis
        unfolding GetOk save_loop_conflict_step[OF True]
        using rev_back[OF a] b by (auto intro: rev_back)
    qed
  qed
qed

lemma save_loop_last_save:
  "ended (save_loop as t) = Normal \<Longrightarrow>
   events (save_loop as t) \<noteq> [] \<and> last (events (save_loop as t)) = Save (final (save_loop as t))"
proof (induction as t rule: save_loop.induct)
  case (1 t) then show ?case by simp
next
  case (2 g as t) then show ?case by simp
next
  case (3 ex g as t)
  show ?case
  proof (cases "exc_class ex = ResourceConflict")
    case False with 3(2) show ?thesis by simp
  next
    case True
    show ?thesis
    proof (cases g)
      case (GetRaises ex') with True 3(2) show ?thesis by simp
    next
      case (GetOk r)
      from 3(2) have "ended (save_loop as (t\<lparr>task_rev := r\<rparr>)) = Normal"
        unfolding GetOk save_loop_conflict_step[OF True] by simp
      from 3(1)[OF True GetOk this] show ?thesis
        unfolding GetOk save_loop_conflict_step[OF True] by simp
    qed
  qed
qed

text \<open>
  C3. The save step of a task cycle returns only after the store has accepted a
  save: after any number of write conflicts followed by an accepted save it
  returns, having called save once per conflict and once more; a script of
  conflicts alone, however long, leaves it still retrying; and it returns only
  on scripts of that shape. A store error that is not a write conflict ends the
  step with that error, with no save after the failing one.
\<close>

theorem save_loop_retries_until_saved:
  "((\<forall>a\<in>set cs. conflict a) \<longrightarrow>
      ended (save_loop (cs @ (SaveOk, g) # rest) t) = Normal \<and>
      length (saved_docs (events (save_loop (cs @ (SaveOk, g) # rest) t))) = Suc (length cs) \<and>
      (exc_class ex \<noteq> ResourceConflict \<longrightarrow>
         ended (save_loop (cs @ (SaveRaises ex, g) # rest) t) = Raise ex \<and>
         length (saved_docs (events (save_loop (cs @ (SaveRaises ex, g) # rest) t))) = Suc (length cs)) \<and>
      ended (save_loop cs t) = NoReturn) \<and>
   (ended (save_loop as t) = Normal \<longrightarrow>
      (\<exists>cs' g' rest'. as = cs' @ (SaveOk, g') # rest' \<and> (\<forall>a\<in>set cs'. conflict a)))"
  using save_loop_then_ok[of cs g rest t] save_loop_then_error[of cs ex g rest t]
    save_loop_all_conflicts[of cs t] save_loop_normal_only[of as t]
  by blast

theorem save_loop_retries_until_saved_witness:
  "list_all conflict two_conflicts \<and>
   exc_class io_error \<noteq> ResourceConflict \<and>
   ended (save_loop (two_conflicts @ [(SaveOk, GetOk [])]) (token ''t1'')) = Normal \<and>
   length (saved_docs (events (save_loop (two_conflicts @ [(SaveOk, GetOk [])]) (token ''t1'')))) = 3 \<and>
   ended (save_loop (two_conflicts @ [(SaveRaises io_error, GetOk [])]) (token ''t1'')) = Raise io_error \<and>
   length (saved_docs (events (save_loop (two_conflicts @ [(SaveRaises io_error, GetOk [])]) (token ''t1'')))) = 3 \<and>
   ended (save_loop two_conflicts (token ''t1'')) = NoReturn \<and>
   (\<exists>cs' g' rest'. two_conflicts @ [(SaveOk, GetOk [])] = cs' @ (SaveOk, g') # rest' \<and> (\<forall>a\<in>set cs'. conflict a))"
proof -
  have c: "\<forall>a\<in>set two_conflicts. conflict a"
    by (simp add: two_conflicts_def conflict_def conflict_exn_def)
  have e: "exc_class io_error \<noteq> ResourceConflict"
    by (simp add: io_error_def)
  note th = save_loop_retries_until_saved[of two_conflicts "GetOk []" "[]" "token ''t1''" io_error
      "two_conflicts @ [(SaveOk, GetOk [])]"]
  have len: "length two_conflicts = 2" by (simp add: two_conflicts_def)
  from th c e len show ?thesis by (simp add: list_all_iff)
qed

text \<open>
  C4. On a write conflict the loop fetches the document again (\<open>Get\<close> of the
  task's id, right after the refused \<open>Save\<close>) and goes on with the local task
  changed in its revision token only: every document it sends to the store, and
  the local task it ends with, is the worker's task up to \<open>task_rev\<close>, and the
  save the store accepts is the last event and carries that local task.
\<close>

theorem save_loop_changes_only_rev:
  "(\<forall>u\<in>set (saved_docs (events (save_loop as t))). u\<lparr>task_rev := task_rev t\<rparr> = t) \<and>
   (final (save_loop as t))\<lparr>task_rev := task_rev t\<rparr> = t \<and>
   (exc_class ex = ResourceConflict \<longrightarrow>
      save_loop ((SaveRaises ex, GetOk r) # as) t =
        (Save t # Get (task_id t) # events (save_loop as (t\<lparr>task_rev := r\<rparr>)),
         snd (save_loop as (t\<lparr>task_rev := r\<rparr>)))) \<and>
   (ended (save_loop as t) = Normal \<longrightarrow>
      events (save_loop as t) \<noteq> [] \<and>
      last (events (save_loop as t)) = Save (final (save_loop as t)))"
  using save_loop_only_rev save_loop_conflict_step save_loop_last_save
  by blast

theorem save_loop_changes_only_rev_witness:
  "saved_docs (events (save_loop (two_conflicts @ [(SaveOk, GetOk [])]) (token ''t1''))) =
     [token ''t1'', (token ''t1'')\<lparr>task_rev := ''2-b''\<rparr>, (token ''t1'')\<lparr>task_rev := ''3-c''\<rparr>] \<and>
   list_all (\<lambda>u. u\<lparr>task_rev := task_rev (token ''t1'')\<rparr> = token ''t1'')
     (saved_docs (events (save_loop (two_conflicts @ [(SaveOk, GetOk [])]) (token ''t1'')))) \<and>
   exc_class conflict_exn = ResourceConflict \<and>
   ended (save_loop (two_conflicts @ [(SaveOk, GetOk [])]) (token ''t1'')) = Normal \<and>
   last (events (save_loop (two_conflicts @ [(SaveOk, GetOk [])]) (token ''t1''))) =
     Save ((token ''t1'')\<lparr>task_rev := ''3-c''\<rparr>)"
proof -
  have ev: "save_loop (two_conflicts @ [(SaveOk, GetOk [])]) (token ''t1'') =
     ([Save (token ''t1''), Get ''t1'', Save ((token ''t1'')\<lparr>task_rev := ''2-b''\<rparr>), Get ''t1'',
       Save ((token ''t1'')\<lparr>task_rev := ''3-c''\<rparr>)], (token ''t1'')\<lparr>task_rev := ''3-c''\<rparr>, Normal)"
    by (simp add: two_conflicts_def conflict_exn_def token_def)
  note th = save_loop_changes_only_rev[of "two_conflicts @ [(SaveOk, GetOk [])]" "token ''t1''" conflict_exn "''9-z''"]
  have c: "exc_class conflict_exn = ResourceConflict" by (simp add: conflict_exn_def)
  from th c show ?thesis unfolding ev by (simp add: list_all_iff)
qed

section \<open>The constructor\<close>

text \<open>
  C10. Constructing an actor without a database raises \<open>ValueError\<close> and yields
  no actor; with a database the constructor returns an actor whose current task
  and tracked subprocess are empty and whose task counter is zero.
\<close>

theorem init_requires_db:
  "AbstractRunActor_init None it view trv = Inl (ValueError ''Database must be initialized'') \<and>
   (\<exists>a. AbstractRunActor_init (Some d) it view trv = Inr a \<and>
        db a = d \<and> token_reset_values a = trv \<and>
        current_task a = None \<and> subprocess a = None \<and> tasks_processed a = 0)"
  by (simp add: AbstractRunActor_init_def)

section \<open>The shutdown handler\<close>

lemma saved_docs_append: "saved_docs (xs @ ys) = saved_docs xs @ saved_docs ys"
  by (induction xs rule: saved_docs.induct) simp_all

lemma saved_docs_stop_subprocess: "saved_docs (fst (stop_subprocess sp)) = []"
  by (simp add: stop_subprocess_def split: option.splits)

lemma handler_saved_docs:
  "saved_docs (events (handler signum reply s)) =
     (case current_task s of
        None \<Rightarrow> []
      | Some t \<Rightarrow>
          (case token_reset_values s of
             None \<Rightarrow> []
           | Some (l, d) \<Rightarrow> [t\<lparr>task_lock := l, task_done := d\<rparr>]))"
proof -
  obtain evs sp where ss: "stop_subprocess (subprocess s) = (evs, sp)"
    by (cases "stop_subprocess (subprocess s)") auto
  then have "saved_docs evs = []"
    using saved_docs_stop_subprocess[of "subprocess s"] by simp
  then show ?thesis
    by (simp add: handler_def ss Let_def saved_docs_append
        split: option.splits prod.splits save_reply.splits)
qed

text \<open>
  C5. The shutdown handler calls save exactly when there is a current task and
  the reset values are not \<open>None\<close>; the one document it then saves is the current
  task with \<open>lock\<close> and \<open>done\<close> set to the reset pair. With no current task, or
  with the reset disabled, it saves nothing.
\<close>

theorem handler_saves_iff:
  "(saved_docs (events (handler signum reply s)) \<noteq> [] \<longleftrightarrow>
      current_task s \<noteq> None \<and> token_reset_values s \<noteq> None) \<and>
   (current_task s = Some t \<and> token_reset_values s = Some (l, d) \<longrightarrow>
      saved_docs (events (handler signum reply s)) = [t\<lparr>task_lock := l, task_done := d\<rparr>])"
  by (simp add: handler_saved_docs split: option.splits prod.splits)

theorem handler_saves_iff_witness:
  "current_task (fresh_actor\<lparr>current_task := Some (token ''t1'')\<rparr>) = Some (token ''t1'') \<and>
   token_reset_values (fresh_actor\<lparr>current_task := Some (token ''t1'')\<rparr>) = Some (0, 0) \<and>
   saved_docs (events (handler 15 SaveOk (fresh_actor\<lparr>current_task := Some (token ''t1'')\<rparr>))) =
     [(token ''t1'')\<lparr>task_lock := 0, task_done := 0\<rparr>] \<and>
   saved_docs (events (handler 15 SaveOk fresh_actor)) = [] \<and>
   saved_docs (events (handler 15 SaveOk
     (fresh_actor\<lparr>current_task := Some (token ''t1''), token_reset_values := None\<rparr>))) = []"
  using handler_saves_iff[of 15 SaveOk "fresh_actor\<lparr>current_task := Some (token ''t1'')\<rparr>" "token ''t1''" 0 0]
    handler_saves_iff[of 15 SaveOk fresh_actor]
    handler_saves_iff[of 15 SaveOk "fresh_actor\<lparr>current_task := Some (token ''t1''), token_reset_values := None\<rparr>"]
  by (simp add: fresh_actor_def)




section \<open>The stop policy\<close>

lemma stop_loop_step:
  "ended (run_task ep s) = Normal \<Longrightarrow>
   stop_loop c (ep # eps) s =
     (if should_break c ep (final (run_task ep s)) then run_task ep s
      else prepend (events (run_task ep s))
             (stop_loop c eps ((final (run_task ep s))\<lparr>current_task := None\<rparr>)))"
  by (cases "run_task ep s") (simp add: prepend_def split: prod.splits)

lemma abstract_loop_step:
  "ended (run_task ep s) = Normal \<Longrightarrow>
   abstract_loop (ep # eps) s =
     prepend (events (run_task ep s))
       (abstract_loop eps ((final (run_task ep s))\<lparr>current_task := None\<rparr>))"
  by (cases "run_task ep s") (simp add: prepend_def split: prod.splits)

lemma loop_stops:
  "ended (run_task ep s) \<noteq> Normal \<Longrightarrow>
   stop_loop c (ep # eps) s = run_task ep s \<and> abstract_loop (ep # eps) s = run_task ep s"
  by (cases "run_task ep s") (auto split: result.splits)

lemma run_task_quiet:
  "run_task (quiet i e) s =
     ([PrepareRun, ProcessTask (token i), Save ((token i)\<lparr>task_done := 1\<rparr>), CleanupRun],
      s\<lparr>current_task := Some ((token i)\<lparr>task_done := 1\<rparr>), tasks_processed := tasks_processed s + 1\<rparr>,
      Normal)"
  by (simp add: run_task_def quiet_def persist_def)

subsection \<open>Sums of doubles\<close>

lemma round_even_of_int: "round_even (of_int n) = n"
  by (simp add: round_even_def)

lemma round_even_ge_floor: "\<lfloor>r\<rfloor> \<le> round_even r"
  by (simp add: round_even_def Let_def)

lemma expo_eqI:
  assumes "2 powr (of_int k) \<le> \<bar>x\<bar>" "\<bar>x\<bar> < 2 powr (of_int k + 1)"
  shows "expo x = k"
proof -
  have "(0::real) < 2 powr (of_int k)" by simp
  with assms(1) have "0 < \<bar>x\<bar>" by linarith
  then show ?thesis
    unfolding expo_def using assms by (simp add: floor_log_eq_powr_iff)
qed

lemma expo_3: "8 \<le> x \<Longrightarrow> x < 16 \<Longrightarrow> expo x = 3"
  by (rule expo_eqI) (simp_all add: powr_numeral)

lemma ulp_3: "8 \<le> x \<Longrightarrow> x < 16 \<Longrightarrow> ulp x = 1 / 2 ^ 49"
  by (simp add: ulp_def expo_3 powr_minus_divide powr_numeral)

lemma round53_3:
  "8 \<le> x \<Longrightarrow> x < 16 \<Longrightarrow> round53 x = of_int (round_even (x * 2 ^ 49)) / 2 ^ 49"
  by (simp add: round53_def ulp_3)

lemma fadd_8_2: "fadd 8 2 = 10"
proof -
  have "(10::real) * 2 ^ 49 = of_int (10 * 2 ^ 49)" by simp
  then have "round_even ((10::real) * 2 ^ 49) = 10 * 2 ^ 49"
    using round_even_of_int by metis
  then show ?thesis by (simp add: fadd_def round53_3)
qed


lemma expo_bounds:
  assumes "x \<noteq> 0"
  shows "2 powr (of_int (expo x)) \<le> \<bar>x\<bar>" "\<bar>x\<bar> < 2 powr (of_int (expo x) + 1)"
proof -
  have "0 < \<bar>x\<bar>" using assms by simp
  then have "2 powr (of_int (expo x)) \<le> \<bar>x\<bar> \<and> \<bar>x\<bar> < 2 powr (of_int (expo x) + 1)"
    using floor_log_eq_powr_iff[of "\<bar>x\<bar>" 2 "expo x"] by (simp add: expo_def)
  then show "2 powr (of_int (expo x)) \<le> \<bar>x\<bar>" "\<bar>x\<bar> < 2 powr (of_int (expo x) + 1)"
    by simp_all
qed

lemma round53_ge_16:
  assumes "16 \<le> x"
  shows "16 \<le> round53 x"
proof -
  have x: "x \<noteq> 0" "\<bar>x\<bar> = x" using assms by simp_all
  let ?k = "expo x"
  have lo: "2 powr (of_int ?k) \<le> x" and hi: "x < 2 powr (of_int ?k + 1)"
    using expo_bounds[OF x(1)] x(2) by simp_all
  have "(2::real) powr 4 < 2 powr (of_int ?k + 1)"
    using assms hi by (simp add: powr_numeral)
  then have "(4::real) < of_int ?k + 1" by (rule powr_less_cancel) simp
  then have k: "4 \<le> ?k" by linarith
  have u: "ulp x = 2 powr (of_int ?k) / 2 ^ 52"
    by (simp add: ulp_def powr_diff powr_numeral)
  have up: "0 < ulp x" by (simp add: ulp_def)
  have "2 ^ 52 \<le> x / ulp x"
    using lo by (simp add: u field_simps)
  then have "(2 ^ 52 :: int) \<le> \<lfloor>x / ulp x\<rfloor>" by (simp add: le_floor_iff)
  then have "(2 ^ 52 :: int) \<le> round_even (x / ulp x)"
    using round_even_ge_floor[of "x / ulp x"] by linarith
  then have "(2 ^ 52 :: real) \<le> of_int (round_even (x / ulp x))"
    by (metis of_int_le_iff of_int_numeral of_int_power)
  then have "ulp x * 2 ^ 52 \<le> ulp x * of_int (round_even (x / ulp x))"
    using up by simp
  moreover have "ulp x * 2 ^ 52 = 2 powr (of_int ?k)" by (simp add: u)
  moreover have "(2::real) powr 4 \<le> 2 powr (of_int ?k)"
    by (rule powr_mono) (use k in simp_all)
  ultimately show ?thesis using x(1) by (simp add: round53_def powr_numeral)
qed

lemma fadd_2_above_8:
  assumes "is_double e" "8 < e"
  shows "10 < fadd e 2"
proof (cases "e < 14")
  case True
  have e3: "8 \<le> e" "e < 16" using assms(2) True by simp_all
  define n where "n = round_even (e * 2 ^ 49)"
  have "of_int n / 2 ^ 49 = e"
    using assms(1) unfolding is_double_def round53_3[OF e3] n_def by simp
  then have e: "e = of_int n / 2 ^ 49" by simp
  have s3: "8 \<le> e + 2" "e + 2 < 16" using assms(2) True by simp_all
  have "(e + 2) * 2 ^ 49 = of_int (n + 2 ^ 50)" by (simp add: e)
  then have "round_even ((e + 2) * 2 ^ 49) = n + 2 ^ 50"
    using round_even_of_int by metis
  then have "round53 (e + 2) = of_int (n + 2 ^ 50) / 2 ^ 49"
    unfolding round53_3[OF s3] by simp
  also have "\<dots> = e + 2" by (simp add: e)
  finally show ?thesis using assms(2) by (simp add: fadd_def)
next
  case False
  then have "16 \<le> e + 2" by simp
  from round53_ge_16[OF this] show ?thesis by (simp add: fadd_def)
qed

lemma is_double_8: "is_double 8"
proof -
  have "(8::real) * 2 ^ 49 = of_int (8 * 2 ^ 49)" by simp
  then have "round_even ((8::real) * 2 ^ 49) = 8 * 2 ^ 49"
    using round_even_of_int by metis
  then show ?thesis by (simp add: is_double_def round53_3)
qed


lemma round_even_eval:
  "round_even (2814784951478648832 / 625) = 4503655922365838"
  "round_even (27866022694354944 / 5) = 5573204538870989"
  "round_even (36028797018963968 / 5) = 7205759403792794"
  "round_even (360287970189639693 / 64) = 5629499534213120"
  by (simp_all add: round_even_def Let_def)

lemma round53_8_0001: "round53 (80001 / 10000) = 4503655922365838 / 2 ^ 49"
proof -
  have m: "(80001 / 10000 :: real) * 2 ^ 49 = 2814784951478648832 / 625" by simp
  have "round53 (80001 / 10000) = of_int (round_even ((80001 / 10000) * 2 ^ 49)) / 2 ^ 49"
    by (rule round53_3) simp_all
  also have "\<dots> = of_int 4503655922365838 / 2 ^ 49"
    unfolding m round_even_eval ..
  finally show ?thesis by simp
qed

lemma round53_9_9: "round53 (99 / 10) = 5573204538870989 / 2 ^ 49"
proof -
  have m: "(99 / 10 :: real) * 2 ^ 49 = 27866022694354944 / 5" by simp
  have "round53 (99 / 10) = of_int (round_even ((99 / 10) * 2 ^ 49)) / 2 ^ 49"
    by (rule round53_3) simp_all
  also have "\<dots> = of_int 5573204538870989 / 2 ^ 49"
    unfolding m round_even_eval ..
  finally show ?thesis by simp
qed

lemma round53_0_1: "round53 (1 / 10) = 7205759403792794 / 2 ^ 56"
proof -
  have e: "expo (1 / 10) = - 4"
    by (rule expo_eqI) (simp_all add: powr_minus_divide)
  have u: "ulp (1 / 10) = 1 / 2 ^ 56"
    by (simp add: ulp_def e powr_minus_divide)
  have m: "(1 / 10 :: real) / (1 / 2 ^ 56) = 36028797018963968 / 5" by simp
  have "round53 (1 / 10) = (1 / 2 ^ 56) * of_int (round_even ((1 / 10) / (1 / 2 ^ 56)))"
    unfolding round53_def u by simp
  also have "\<dots> = (1 / 2 ^ 56) * of_int 7205759403792794"
    unfolding m round_even_eval ..
  finally show ?thesis by simp
qed

lemma fadd_9_9_0_1: "fadd (round53 (99 / 10)) (round53 (1 / 10)) = 10"
proof -
  let ?s = "5573204538870989 / 2 ^ 49 + 7205759403792794 / 2 ^ 56 :: real"
  have m: "?s * 2 ^ 49 = 360287970189639693 / 64" by simp
  have "round53 ?s = of_int (round_even (?s * 2 ^ 49)) / 2 ^ 49"
    by (rule round53_3) simp_all
  also have "\<dots> = of_int 5629499534213120 / 2 ^ 49"
    unfolding m round_even_eval ..
  also have "\<dots> = 10" by simp
  finally show ?thesis by (simp only: fadd_def round53_9_9 round53_0_1)
qed

lemma is_double_8_0001: "is_double (round53 (80001 / 10000))"
proof -
  let ?d = "4503655922365838 / 2 ^ 49 :: real"
  have m: "?d * 2 ^ 49 = of_int 4503655922365838" by simp
  have "round53 ?d = of_int (round_even (?d * 2 ^ 49)) / 2 ^ 49"
    by (rule round53_3) simp_all
  also have "\<dots> = of_int 4503655922365838 / 2 ^ 49"
    unfolding m round_even_of_int ..
  finally have "round53 ?d = ?d" by simp
  then show ?thesis by (simp only: is_double_def round53_8_0001)
qed

lemma above_8: "8 < round53 (80001 / 10000)"
  by (simp add: round53_8_0001)

lemma fadd_1_tiny:
  assumes "0 \<le> y" "y < 1 / 2 ^ 53"
  shows "fadd 1 y = 1"
proof -
  have "(1::real) / 2 ^ 53 \<le> 1" by simp
  with assms(2) have y1: "y < 1" by linarith
  have e: "expo (1 + y) = 0"
    by (rule expo_eqI) (use assms(1) y1 in simp_all)
  have u: "ulp (1 + y) = 1 / 2 ^ 52"
    by (simp add: ulp_def e powr_minus_divide)
  have fr: "y * 2 ^ 52 < 1 / 2" using assms(2) by (simp add: field_simps)
  have nn: "0 \<le> y * 2 ^ 52" using assms(1) by simp
  have fl: "\<lfloor>(1 + y) * 2 ^ 52\<rfloor> = 2 ^ 52"
  proof (rule floor_unique)
    show "of_int (2 ^ 52) \<le> (1 + y) * 2 ^ 52" using nn by (simp add: algebra_simps)
    show "(1 + y) * 2 ^ 52 < of_int (2 ^ 52) + 1" using fr by (simp add: algebra_simps)
  qed
  have "round_even ((1 + y) * 2 ^ 52) = 2 ^ 52"
    unfolding round_even_def fl Let_def using fr by (simp add: algebra_simps)
  then show ?thesis
    using assms(1) by (simp add: fadd_def round53_def u)
qed

text \<open>The rounding decides: the doubles written \<open>9.9\<close> and \<open>0.1\<close> add up to
  the double 10, although the two real numbers they stand for add up to more
  than 10. With \<open>max_time = 10\<close> the loop goes on there.\<close>

lemma no_break_at_9_9:
  "\<not> should_break \<lparr>max_time = Some 10, avg_time_factor = round53 (1 / 10), max_tasks = 0,
                     stop_function = False\<rparr> (quiet i (round53 (99 / 10))) s"
  by (simp add: should_break_def quiet_def fadd_9_9_0_1)

text \<open>A small enough addend is absorbed: with \<open>max_time = 1\<close> and an elapsed
  time of 1, an \<open>avg_time_factor\<close> below \<open>1 / 2 ^ 53\<close>, such as \<open>1e-17\<close>, does not
  stop the loop.\<close>

lemma no_break_at_1:
  "0 \<le> y \<Longrightarrow> y < 1 / 2 ^ 53 \<Longrightarrow>
   \<not> should_break \<lparr>max_time = Some 1, avg_time_factor = y, max_tasks = 0,
                     stop_function = False\<rparr> (quiet i 1) s"
  by (simp add: should_break_def quiet_def fadd_1_tiny)

text \<open>
  C8. With \<open>max_time\<close> set, and the other two tests not stopping the loop, the loop
  stops after a completed cycle exactly when the elapsed time plus
  \<open>avg_time_factor\<close>, added as the program adds them (in doubles), is strictly
  greater than \<open>max_time\<close>: with neither a stop function nor a task limit,
  \<open>RunActor.run\<close>'s loop returns after the cycle in that case and goes on with
  the next task otherwise. For \<open>max_time = 10\<close> and \<open>avg_time_factor = 2\<close> it goes
  on when the elapsed time is 8 and stops for every double greater than 8, such
  as the double written 8.0001.
\<close>

theorem max_time_stop:
  "(max_time c = Some m \<and> \<not> (stop_function c \<and> ep_stop ep) \<and>
    \<not> (max_tasks c \<noteq> 0 \<and> int (tasks_processed s) = max_tasks c) \<longrightarrow>
      should_break c ep s = (m < fadd (ep_elapsed ep) (avg_time_factor c))) \<and>
   (max_time c = Some m \<and> \<not> stop_function c \<and> max_tasks c = 0 \<and>
    ended (run_task ep s) = Normal \<longrightarrow>
      stop_loop c (ep # eps) s =
        (if m < fadd (ep_elapsed ep) (avg_time_factor c) then run_task ep s
         else prepend (events (run_task ep s))
                (stop_loop c eps ((final (run_task ep s))\<lparr>current_task := None\<rparr>)))) \<and>
   (max_time c = Some 10 \<and> avg_time_factor c = 2 \<and> \<not> stop_function c \<and> max_tasks c = 0 \<longrightarrow>
      (ep_elapsed ep = 8 \<longrightarrow> \<not> should_break c ep s) \<and>
      (is_double (ep_elapsed ep) \<and> 8 < ep_elapsed ep \<longrightarrow> should_break c ep s))"
proof (intro conjI impI)
  assume "max_time c = Some m \<and> \<not> (stop_function c \<and> ep_stop ep) \<and>
    \<not> (max_tasks c \<noteq> 0 \<and> int (tasks_processed s) = max_tasks c)"
  then show "should_break c ep s = (m < fadd (ep_elapsed ep) (avg_time_factor c))"
    by (auto simp: should_break_def)
next
  assume a: "max_time c = Some m \<and> \<not> stop_function c \<and> max_tasks c = 0 \<and>
    ended (run_task ep s) = Normal"
  then have "should_break c ep (final (run_task ep s)) =
      (m < fadd (ep_elapsed ep) (avg_time_factor c))"
    by (simp add: should_break_def)
  with a show "stop_loop c (ep # eps) s =
        (if m < fadd (ep_elapsed ep) (avg_time_factor c) then run_task ep s
         else prepend (events (run_task ep s))
                (stop_loop c eps ((final (run_task ep s))\<lparr>current_task := None\<rparr>)))"
    using stop_loop_step[of ep s c eps] by simp
next
  assume a: "max_time c = Some 10 \<and> avg_time_factor c = 2 \<and> \<not> stop_function c \<and> max_tasks c = 0"
    and e: "ep_elapsed ep = 8"
  then show "\<not> should_break c ep s"
    by (simp add: should_break_def fadd_8_2)
next
  assume a: "max_time c = Some 10 \<and> avg_time_factor c = 2 \<and> \<not> stop_function c \<and> max_tasks c = 0"
    and e: "is_double (ep_elapsed ep) \<and> 8 < ep_elapsed ep"
  then have "10 < fadd (ep_elapsed ep) 2" by (simp add: fadd_2_above_8)
  with a show "should_break c ep s"
    by (simp add: should_break_def)
qed

theorem max_time_stop_witness:
  "max_time ten_two = Some 10 \<and> avg_time_factor ten_two = 2 \<and> \<not> stop_function ten_two \<and>
   max_tasks ten_two = 0 \<and>
   ep_elapsed (quiet ''t1'' 8) = 8 \<and>
   ended (run_task (quiet ''t1'' 8) fresh_actor) = Normal \<and>
   is_double (round53 (80001 / 10000)) \<and> 8 < round53 (80001 / 10000) \<and>
   \<not> (stop_function ten_two \<and> ep_stop (quiet ''t1'' 8)) \<and>
   \<not> (max_tasks ten_two \<noteq> 0 \<and> int (tasks_processed fresh_actor) = max_tasks ten_two) \<and>
   should_break ten_two (quiet ''t1'' 8) fresh_actor =
     (10 < fadd (ep_elapsed (quiet ''t1'' 8)) (avg_time_factor ten_two)) \<and>
   \<not> should_break ten_two (quiet ''t1'' 8) fresh_actor \<and>
   should_break ten_two (quiet ''t1'' (round53 (80001 / 10000))) fresh_actor \<and>
   stop_loop ten_two [quiet ''t1'' 8, quiet ''t2'' 8] fresh_actor =
     prepend (events (run_task (quiet ''t1'' 8) fresh_actor))
       (stop_loop ten_two [quiet ''t2'' 8]
         ((final (run_task (quiet ''t1'' 8) fresh_actor))\<lparr>current_task := None\<rparr>)) \<and>
   stop_loop ten_two [quiet ''t1'' (round53 (80001 / 10000)), quiet ''t2'' 8] fresh_actor =
     run_task (quiet ''t1'' (round53 (80001 / 10000))) fresh_actor"
proof -
  let ?d = "round53 (80001 / 10000)"
  have c: "max_time ten_two = Some 10" "avg_time_factor ten_two = 2" "\<not> stop_function ten_two"
    "max_tasks ten_two = 0"
    by (simp_all add: ten_two_def)
  have e: "ep_elapsed (quiet i x) = x" for i x
    by (simp add: quiet_def)
  have n: "ended (run_task (quiet i x) s) = Normal" for i x s
    by (simp add: run_task_quiet)
  have d: "is_double ?d" "8 < ?d"
    by (rule is_double_8_0001, rule above_8)
  note a = max_time_stop[of ten_two 10 "quiet ''t1'' 8" fresh_actor "[quiet ''t2'' 8]"]
  note b = max_time_stop[of ten_two 10 "quiet ''t1'' ?d" fresh_actor "[quiet ''t2'' 8]"]
  have hc: "max_time ten_two = Some 10 \<and> avg_time_factor ten_two = 2 \<and>
      \<not> stop_function ten_two \<and> max_tasks ten_two = 0"
    using c by simp
  have hd: "is_double (ep_elapsed (quiet ''t1'' ?d)) \<and> 8 < ep_elapsed (quiet ''t1'' ?d)"
    using d by (simp add: e)
  have nb: "\<not> should_break ten_two (quiet ''t1'' 8) fresh_actor"
    by (rule a[THEN conjunct2, THEN conjunct2, THEN mp, OF hc, THEN conjunct1, THEN mp]) (rule e)
  have br: "should_break ten_two (quiet ''t1'' ?d) fresh_actor"
    by (rule b[THEN conjunct2, THEN conjunct2, THEN mp, OF hc, THEN conjunct2, THEN mp, OF hd])
  have f8: "\<not> 10 < fadd (ep_elapsed (quiet ''t1'' 8)) (avg_time_factor ten_two)"
    by (simp add: e c fadd_8_2)
  have fd: "10 < fadd (ep_elapsed (quiet ''t1'' ?d)) (avg_time_factor ten_two)"
    using d by (simp add: e c fadd_2_above_8)
  have hn: "max_time ten_two = Some 10 \<and> \<not> stop_function ten_two \<and> max_tasks ten_two = 0 \<and>
      ended (run_task (quiet i x) fresh_actor) = Normal" for i x
    using c n by simp
  note a2 = a[THEN conjunct2, THEN conjunct1, THEN mp, OF hn]
  note b2 = b[THEN conjunct2, THEN conjunct1, THEN mp, OF hn]
  from a2 f8 have l8: "stop_loop ten_two [quiet ''t1'' 8, quiet ''t2'' 8] fresh_actor =
     prepend (events (run_task (quiet ''t1'' 8) fresh_actor))
       (stop_loop ten_two [quiet ''t2'' 8]
         ((final (run_task (quiet ''t1'' 8) fresh_actor))\<lparr>current_task := None\<rparr>))"
    by (simp del: stop_loop.simps)
  from b2 fd have ld: "stop_loop ten_two [quiet ''t1'' ?d, quiet ''t2'' 8] fresh_actor =
     run_task (quiet ''t1'' ?d) fresh_actor"
    by (simp del: stop_loop.simps)
  have h1: "max_time ten_two = Some 10 \<and> \<not> (stop_function ten_two \<and> ep_stop (quiet ''t1'' 8)) \<and>
      \<not> (max_tasks ten_two \<noteq> 0 \<and> int (tasks_processed fresh_actor) = max_tasks ten_two)"
    using c by simp
  note a1 = a[THEN conjunct1, THEN mp, OF h1]
  show ?thesis
    using c e[of "''t1''" 8] n d nb br l8 ld h1 a1 by blast
qed

section \<open>One task cycle\<close>

lemma save_loop_store_events: "\<forall>e\<in>set (events (save_loop as t)). store_event e"
proof (induction as t rule: save_loop.induct)
  case (1 t) then show ?case by simp
next
  case (2 g as t) then show ?case by (simp add: store_event_def)
next
  case (3 ex g as t)
  show ?case
  proof (cases "exc_class ex = ResourceConflict")
    case False then show ?thesis by (simp add: store_event_def)
  next
    case True
    show ?thesis
    proof (cases g)
      case (GetRaises ex') with True show ?thesis by (simp add: store_event_def)
    next
      case (GetOk r)
      from 3[OF True GetOk] show ?thesis
        unfolding GetOk save_loop_conflict_step[OF True] by (simp add: store_event_def)
    qed
  qed
qed

lemma save_loop_no_hooks:
  "PrepareRun \<notin> set (events (save_loop as t))"
  "CleanupEnv \<notin> set (events (save_loop as t))"
  "Exit n \<notin> set (events (save_loop as t))"
  using save_loop_store_events[of as t] by (auto simp: store_event_def)

lemma stop_subprocess_no_hooks:
  "PrepareRun \<notin> set (fst (stop_subprocess sp))"
  "CleanupEnv \<notin> set (fst (stop_subprocess sp))"
  "Exit n \<notin> set (fst (stop_subprocess sp))"
  by (simp_all add: stop_subprocess_def split: option.splits)

lemma handler_cases:
  "(\<exists>evs. events (handler signum reply s) = evs @ [CleanupEnv, Exit 0] \<and>
          PrepareRun \<notin> set evs \<and> CleanupEnv \<notin> set evs \<and> Exit 0 \<notin> set evs \<and>
          ended (handler signum reply s) = SystemExit0) \<or>
   (PrepareRun \<notin> set (events (handler signum reply s)) \<and>
    CleanupEnv \<notin> set (events (handler signum reply s)) \<and>
    Exit 0 \<notin> set (events (handler signum reply s)))"
proof -
  obtain evs sp where ss: "stop_subprocess (subprocess s) = (evs, sp)"
    by (cases "stop_subprocess (subprocess s)") auto
  then have n: "PrepareRun \<notin> set evs" "CleanupEnv \<notin> set evs" "Exit 0 \<notin> set evs"
    using stop_subprocess_no_hooks[where sp="subprocess s"] by simp_all
  show ?thesis
    using n by (simp add: handler_def ss Let_def split: option.splits prod.splits save_reply.splits)
qed

lemma handler_tasks_processed:
  "tasks_processed (final (handler signum reply s)) = tasks_processed s"
  by (simp add: handler_def Let_def split: option.splits prod.splits save_reply.splits)


lemma persist_events:
  "events (persist as evs t s) =
     evs @ events (save_loop as t) @ (if ended (save_loop as t) = Normal then [CleanupRun] else [])"
  by (cases "save_loop as t") (simp add: persist_def split: result.splits)

lemma persist_ended: "ended (persist as evs t s) = ended (save_loop as t)"
  by (cases "save_loop as t") (simp add: persist_def split: result.splits)

lemma persist_final:
  "tasks_processed (final (persist as evs t s)) =
     (if ended (save_loop as t) = Normal then Suc (tasks_processed s) else tasks_processed s)"
  "current_task (final (persist as evs t s)) = Some (final (save_loop as t))"
  by (cases "save_loop as t"; simp add: persist_def split: result.splits)+

lemma process_task_cases:
  assumes "process_task oc s = (evs, s', t, raised)"
  shows "tasks_processed s' = tasks_processed s"
    and "PrepareRun \<notin> set evs"
    and "(CleanupEnv \<notin> set evs \<and> Exit 0 \<notin> set evs) \<or>
         (\<exists>evs0. evs = evs0 @ [CleanupEnv, Exit 0] \<and> CleanupEnv \<notin> set evs0 \<and>
                 Exit 0 \<notin> set evs0 \<and> raised = Some SystemExit0)"
proof -
  show "tasks_processed s' = tasks_processed s"
  proof (cases oc)
    case (Signalled u sp signum reply)
    with assms handler_tasks_processed[of signum reply "s\<lparr>current_task := Some u, subprocess := sp\<rparr>"]
    show ?thesis by (auto split: prod.splits)
  qed (use assms in auto)
  show "PrepareRun \<notin> set evs"
  proof (cases oc)
    case (Signalled u sp signum reply)
    with assms handler_cases[of signum reply "s\<lparr>current_task := Some u, subprocess := sp\<rparr>"]
    show ?thesis by (auto split: prod.splits)
  qed (use assms in auto)
  show "(CleanupEnv \<notin> set evs \<and> Exit 0 \<notin> set evs) \<or>
         (\<exists>evs0. evs = evs0 @ [CleanupEnv, Exit 0] \<and> CleanupEnv \<notin> set evs0 \<and>
                 Exit 0 \<notin> set evs0 \<and> raised = Some SystemExit0)"
  proof (cases oc)
    case (Signalled u sp signum reply)
    with assms handler_cases[of signum reply "s\<lparr>current_task := Some u, subprocess := sp\<rparr>"]
    show ?thesis by (auto split: prod.splits)
  qed (use assms in auto)
qed

lemma not_is_Exception_SystemExit0: "\<not> is_Exception SystemExit0"
  by (simp add: is_Exception_def SystemExit0_def)


lemma count_absent: "x \<notin> set xs \<Longrightarrow> length (filter (\<lambda>e. e = x) xs) = 0"
  by (induction xs) auto

lemma run_task_unfold:
  assumes "process_task (ep_outcome ep) (s\<lparr>current_task := Some (ep_task ep)\<rparr>) = (evs, s', t, raised)"
  shows "run_task ep s =
     (case raised of
        None \<Rightarrow> persist (ep_store ep) (PrepareRun # ProcessTask (ep_task ep) # evs) t s'
      | Some ex \<Rightarrow>
          if is_Exception ex then
            persist (ep_store ep)
              ((PrepareRun # ProcessTask (ep_task ep) # evs) @
               [TaskError (processing_msg ex) ex, LogInfo (processing_msg ex)])
              (task_error (processing_msg ex) ex t) s'
          else (PrepareRun # ProcessTask (ep_task ep) # evs, s', Raise ex))"
  unfolding run_task_def Let_def assms by simp

lemma run_task_cycles: "cycles (events (run_task ep s)) = 1"
proof -
  obtain evs s' t raised where
    pt: "process_task (ep_outcome ep) (s\<lparr>current_task := Some (ep_task ep)\<rparr>) = (evs, s', t, raised)"
    by (metis prod_cases4)
  have a: "length (filter (\<lambda>e. e = PrepareRun) evs) = 0"
    using process_task_cases(2)[OF pt] by (rule count_absent)
  have b: "length (filter (\<lambda>e. e = PrepareRun) (events (save_loop as u))) = 0" for as u
    using save_loop_no_hooks(1)[of as u] by (rule count_absent)
  show ?thesis
    unfolding run_task_unfold[OF pt] cycles_def using a b
    by (simp add: persist_events split: option.splits)
qed

lemma run_task_normal:
  assumes "ended (run_task ep s) = Normal"
  shows "tasks_processed (final (run_task ep s)) = Suc (tasks_processed s)"
proof -
  obtain evs s' t raised where
    pt: "process_task (ep_outcome ep) (s\<lparr>current_task := Some (ep_task ep)\<rparr>) = (evs, s', t, raised)"
    by (metis prod_cases4)
  have tp: "tasks_processed s' = tasks_processed s"
    using process_task_cases(1)[OF pt] by simp
  show ?thesis
  proof (cases raised)
    case None
    with assms tp show ?thesis
      unfolding run_task_unfold[OF pt] by (simp add: persist_final persist_ended)
  next
    case (Some ex)
    show ?thesis
    proof (cases "is_Exception ex")
      case True
      with Some assms tp show ?thesis
        unfolding run_task_unfold[OF pt] by (simp add: persist_final persist_ended)
    next
      case False
      with Some assms show ?thesis
        unfolding run_task_unfold[OF pt] by simp
    qed
  qed
qed

lemma run_task_teardowns:
  "teardowns (events (run_task ep s)) = (if Exit 0 \<in> set (events (run_task ep s)) then 1 else 0)"
  "Exit 0 \<in> set (events (run_task ep s)) \<Longrightarrow> ended (run_task ep s) = Raise SystemExit0"
proof -
  obtain evs s' t raised where
    pt: "process_task (ep_outcome ep) (s\<lparr>current_task := Some (ep_task ep)\<rparr>) = (evs, s', t, raised)"
    by (metis prod_cases4)
  have b: "length (filter (\<lambda>e. e = CleanupEnv) (events (save_loop as u))) = 0"
    "Exit 0 \<notin> set (events (save_loop as u))" for as u
    using save_loop_no_hooks[where as=as and t=u] by (simp_all add: count_absent)
  consider (quiet) "CleanupEnv \<notin> set evs" "Exit 0 \<notin> set evs"
    | (exit) evs0 where "evs = evs0 @ [CleanupEnv, Exit 0]" "CleanupEnv \<notin> set evs0"
        "Exit 0 \<notin> set evs0" "raised = Some SystemExit0"
    using process_task_cases(3)[OF pt] by blast
  then have "teardowns (events (run_task ep s)) = (if Exit 0 \<in> set (events (run_task ep s)) then 1 else 0) \<and>
    (Exit 0 \<in> set (events (run_task ep s)) \<longrightarrow> ended (run_task ep s) = Raise SystemExit0)"
  proof cases
    case quiet
    then have "length (filter (\<lambda>e. e = CleanupEnv) evs) = 0" by (simp add: count_absent)
    with quiet b show ?thesis
      unfolding run_task_unfold[OF pt] teardowns_def
      by (simp add: persist_events split: option.splits)
  next
    case exit
    then have "length (filter (\<lambda>e. e = CleanupEnv) evs0) = 0" by (simp add: count_absent)
    with exit show ?thesis
      unfolding run_task_unfold[OF pt] teardowns_def
      by (simp add: not_is_Exception_SystemExit0)
  qed
  then show "teardowns (events (run_task ep s)) = (if Exit 0 \<in> set (events (run_task ep s)) then 1 else 0)"
    "Exit 0 \<in> set (events (run_task ep s)) \<Longrightarrow> ended (run_task ep s) = Raise SystemExit0"
    by simp_all
qed

lemma save_loop_first_save:
  "as \<noteq> [] \<Longrightarrow> saved_docs (events (save_loop as t)) \<noteq> [] \<and> hd (saved_docs (events (save_loop as t))) = t"
proof (cases as)
  case Nil then show "as \<noteq> [] \<Longrightarrow> ?thesis" by simp
next
  case (Cons a as')
  obtain sr g where a: "a = (sr, g)" by (cases a)
  show ?thesis
  proof (cases sr)
    case SaveOk with Cons a show ?thesis by simp
  next
    case (SaveRaises ex)
    with Cons a show ?thesis
      by (cases g) (simp_all split: prod.splits)
  qed
qed

lemma saved_annotations:
  assumes "u \<in> set (saved_docs (events (save_loop as t)))"
  shows "annotations u = annotations t"
proof -
  from assms save_loop_only_rev[where as=as and t=t] have "u\<lparr>task_rev := task_rev t\<rparr> = t" by blast
  then have "annotations (u\<lparr>task_rev := task_rev t\<rparr>) = annotations t" by simp
  then show ?thesis by simp
qed

lemma run_task_raises:
  assumes "ep_outcome ep = Raises ex t" "is_Exception ex"
  shows "run_task ep s =
     persist (ep_store ep)
       [PrepareRun, ProcessTask (ep_task ep), TaskError (processing_msg ex) ex, LogInfo (processing_msg ex)]
       (task_error (processing_msg ex) ex t)
       (s\<lparr>current_task := Some t\<rparr>)"
  using assms by (simp add: run_task_def Let_def)

lemma run_task_returns:
  assumes "ep_outcome ep = Returns t"
  shows "run_task ep s =
     persist (ep_store ep) [PrepareRun, ProcessTask (ep_task ep)] t (s\<lparr>current_task := Some t\<rparr>)"
  using assms by (simp add: run_task_def Let_def)

lemma run_task_failing:
  "run_task (failing i) s =
     ([PrepareRun, ProcessTask (token i), TaskError (processing_msg io_error) io_error,
       LogInfo (processing_msg io_error),
       Save (task_error (processing_msg io_error) io_error (token i)), CleanupRun],
      s\<lparr>current_task := Some (task_error (processing_msg io_error) io_error (token i)),
        tasks_processed := tasks_processed s + 1\<rparr>,
      Normal)"
proof -
  have e: "is_Exception io_error" by (simp add: is_Exception_def io_error_def)
  have o: "ep_outcome (failing i) = Raises io_error (token i)" by (simp add: failing_def quiet_def)
  show ?thesis
    unfolding run_task_raises[OF o e]
    by (simp add: failing_def quiet_def persist_def)
qed

text \<open>
  C2. When \<open>process_task\<close> raises an error (an instance of \<open>Exception\<close>) in a
  task cycle, the cycle calls the task's error annotation with the message built
  from the error's type and text, logs the message and goes on to the save loop
  with the annotated task: every document it saves carries the annotation (kind
  tag and message), the cycle ends the way the save loop ends and not with the
  processing error, and when the save is accepted the counter goes up and the
  loop goes on with the next task. The save loop runs after a processing that
  returned as it does after one that raised.
\<close>

theorem processing_error_is_contained:
  "(ep_outcome ep = Raises ex t \<and> is_Exception ex \<longrightarrow>
      events (run_task ep s) =
        [PrepareRun, ProcessTask (ep_task ep), TaskError (processing_msg ex) ex,
         LogInfo (processing_msg ex)] @
        events (save_loop (ep_store ep) (task_error (processing_msg ex) ex t)) @
        (if ended (save_loop (ep_store ep) (task_error (processing_msg ex) ex t)) = Normal
         then [CleanupRun] else []) \<and>
      ended (run_task ep s) = ended (save_loop (ep_store ep) (task_error (processing_msg ex) ex t)) \<and>
      (ep_store ep \<noteq> [] \<longrightarrow>
         saved_docs (events (run_task ep s)) \<noteq> [] \<and>
         hd (saved_docs (events (run_task ep s))) = task_error (processing_msg ex) ex t) \<and>
      (\<forall>u\<in>set (saved_docs (events (run_task ep s))).
         annotations u = annotations t @ [(exc_type ex, processing_msg ex)]) \<and>
      (ended (run_task ep s) = Normal \<longrightarrow>
         tasks_processed (final (run_task ep s)) = Suc (tasks_processed s) \<and>
         abstract_loop (ep # eps) s =
           prepend (events (run_task ep s))
             (abstract_loop eps ((final (run_task ep s))\<lparr>current_task := None\<rparr>)))) \<and>
   (ep_outcome ep = Returns t \<longrightarrow>
      events (run_task ep s) =
        [PrepareRun, ProcessTask (ep_task ep)] @
        events (save_loop (ep_store ep) t) @
        (if ended (save_loop (ep_store ep) t) = Normal then [CleanupRun] else []))"
proof (intro conjI impI)
  assume a: "ep_outcome ep = Raises ex t \<and> is_Exception ex"
  let ?t = "task_error (processing_msg ex) ex t"
  note rt = run_task_raises[of ep ex t s]
  from a show ev: "events (run_task ep s) =
        [PrepareRun, ProcessTask (ep_task ep), TaskError (processing_msg ex) ex,
         LogInfo (processing_msg ex)] @
        events (save_loop (ep_store ep) ?t) @
        (if ended (save_loop (ep_store ep) ?t) = Normal then [CleanupRun] else [])"
    by (simp add: rt persist_events)
  from a show "ended (run_task ep s) = ended (save_loop (ep_store ep) ?t)"
    by (simp add: rt persist_ended)
  have sd: "saved_docs (events (run_task ep s)) = saved_docs (events (save_loop (ep_store ep) ?t))"
    unfolding ev by (simp add: saved_docs_append)
  show "\<forall>u\<in>set (saved_docs (events (run_task ep s))).
         annotations u = annotations t @ [(exc_type ex, processing_msg ex)]"
    unfolding sd using saved_annotations[of _ "ep_store ep" ?t] by (simp add: task_error_def)
  {
    assume "ep_store ep \<noteq> []"
    then show "saved_docs (events (run_task ep s)) \<noteq> []"
      and "hd (saved_docs (events (run_task ep s))) = ?t"
      unfolding sd using save_loop_first_save[of "ep_store ep" ?t] by simp_all
  }
  {
    assume n: "ended (run_task ep s) = Normal"
    show "tasks_processed (final (run_task ep s)) = Suc (tasks_processed s)"
      using run_task_normal[OF n] .
    show "abstract_loop (ep # eps) s =
           prepend (events (run_task ep s))
             (abstract_loop eps ((final (run_task ep s))\<lparr>current_task := None\<rparr>))"
      using abstract_loop_step[OF n] .
  }
next
  assume "ep_outcome ep = Returns t"
  then show "events (run_task ep s) =
        [PrepareRun, ProcessTask (ep_task ep)] @
        events (save_loop (ep_store ep) t) @
        (if ended (save_loop (ep_store ep) t) = Normal then [CleanupRun] else [])"
    by (simp add: run_task_returns persist_events)
qed

theorem processing_error_is_contained_witness:
  "ep_outcome (failing ''t1'') = Raises io_error (token ''t1'') \<and> is_Exception io_error \<and>
   ep_store (failing ''t1'') \<noteq> [] \<and>
   ended (run_task (failing ''t1'') fresh_actor) = Normal \<and>
   hd (saved_docs (events (run_task (failing ''t1'') fresh_actor))) =
     task_error (processing_msg io_error) io_error (token ''t1'') \<and>
   annotations (task_error (processing_msg io_error) io_error (token ''t1'')) =
     [(''<class 'OSError'>'',
       ''Exception <class 'OSError'> occurred during processing: connection refused'')] \<and>
   tasks_processed (final (run_task (failing ''t1'') fresh_actor)) = 1 \<and>
   abstract_loop [failing ''t1'', quiet ''t2'' 2] fresh_actor =
     prepend (events (run_task (failing ''t1'') fresh_actor))
       (abstract_loop [quiet ''t2'' 2]
         ((final (run_task (failing ''t1'') fresh_actor))\<lparr>current_task := None\<rparr>)) \<and>
   ep_outcome (quiet ''t1'' 1) = Returns ((token ''t1'')\<lparr>task_done := 1\<rparr>) \<and>
   events (run_task (quiet ''t1'' 1) fresh_actor) =
     [PrepareRun, ProcessTask (token ''t1''), Save ((token ''t1'')\<lparr>task_done := 1\<rparr>), CleanupRun]"
proof -
  have o: "ep_outcome (failing ''t1'') = Raises io_error (token ''t1'')"
    and st: "ep_store (failing ''t1'') \<noteq> []"
    and q: "ep_outcome (quiet ''t1'' 1) = Returns ((token ''t1'')\<lparr>task_done := 1\<rparr>)"
    by (simp_all add: failing_def quiet_def)
  have e: "is_Exception io_error" by (simp add: is_Exception_def io_error_def)
  have an: "annotations (task_error (processing_msg io_error) io_error (token ''t1'')) =
     [(''<class 'OSError'>'',
       ''Exception <class 'OSError'> occurred during processing: connection refused'')]"
    by (simp add: task_error_def processing_msg_def io_error_def token_def)
  have fp: "tasks_processed fresh_actor = 0" by (simp add: fresh_actor_def)
  have n: "ended (run_task (failing ''t1'') fresh_actor) = Normal"
    by (simp add: run_task_failing)
  note th' = processing_error_is_contained[of "quiet ''t1'' 1" io_error
      "(token ''t1'')\<lparr>task_done := 1\<rparr>" fresh_actor "[]"]
  from th' q have "events (run_task (quiet ''t1'' 1) fresh_actor) =
      [PrepareRun, ProcessTask (ep_task (quiet ''t1'' 1))] @
      events (save_loop (ep_store (quiet ''t1'' 1)) ((token ''t1'')\<lparr>task_done := 1\<rparr>)) @
      (if ended (save_loop (ep_store (quiet ''t1'' 1)) ((token ''t1'')\<lparr>task_done := 1\<rparr>)) = Normal
       then [CleanupRun] else [])"
    by blast
  then have qe: "events (run_task (quiet ''t1'' 1) fresh_actor) =
     [PrepareRun, ProcessTask (token ''t1''), Save ((token ''t1'')\<lparr>task_done := 1\<rparr>), CleanupRun]"
    by (simp add: quiet_def)
  note th = processing_error_is_contained[of "failing ''t1''" io_error "token ''t1''" fresh_actor
      "[quiet ''t2'' 2]"]
  from th o e st have h: "hd (saved_docs (events (run_task (failing ''t1'') fresh_actor))) =
     task_error (processing_msg io_error) io_error (token ''t1'')"
    by blast
  from th o e n have tp: "tasks_processed (final (run_task (failing ''t1'') fresh_actor)) =
      Suc (tasks_processed fresh_actor)"
    and lp: "abstract_loop [failing ''t1'', quiet ''t2'' 2] fresh_actor =
     prepend (events (run_task (failing ''t1'') fresh_actor))
       (abstract_loop [quiet ''t2'' 2]
         ((final (run_task (failing ''t1'') fresh_actor))\<lparr>current_task := None\<rparr>))"
    by blast+
  from tp fp have tp1: "tasks_processed (final (run_task (failing ''t1'') fresh_actor)) = 1"
    by simp
  show ?thesis
    using o e st n h an tp1 lp q qe by blast
qed

section \<open>The run loops\<close>

lemma prepend_simps:
  "events (prepend evs r) = evs @ events r"
  "final (prepend evs r) = final r"
  "ended (prepend evs r) = ended r"
  by (simp_all add: prepend_def split_beta)

lemma finally_simps:
  "ended (finally_cleanup_env r) = ended r"
  "final (finally_cleanup_env r) = final r"
  "ended r \<noteq> NoReturn \<Longrightarrow> events (finally_cleanup_env r) = events r @ [CleanupEnv]"
  "ended r = NoReturn \<Longrightarrow> events (finally_cleanup_env r) = events r"
  by (cases r; cases "ended r"; simp add: finally_cleanup_env_def)+

lemma teardowns_append: "teardowns (xs @ ys) = teardowns xs + teardowns ys"
  by (simp add: teardowns_def)

lemma cycles_append: "cycles (xs @ ys) = cycles xs + cycles ys"
  by (simp add: cycles_def)

lemma abstract_loop_teardowns:
  "teardowns (events (abstract_loop eps s)) =
     (if Exit 0 \<in> set (events (abstract_loop eps s)) then 1 else 0)"
proof (induction eps arbitrary: s)
  case Nil
  then show ?case by (simp add: teardowns_def)
next
  case (Cons ep eps)
  show ?case
  proof (cases "ended (run_task ep s) = Normal")
    case True
    then have "Exit 0 \<notin> set (events (run_task ep s))"
      using run_task_teardowns(2)[of ep s] by auto
    moreover from this have "teardowns (events (run_task ep s)) = 0"
      using run_task_teardowns(1)[of ep s] by simp
    ultimately show ?thesis
      unfolding abstract_loop_step[OF True] prepend_simps teardowns_append
      using Cons.IH[of "(final (run_task ep s))\<lparr>current_task := None\<rparr>"] by simp
  next
    case False
    then have "abstract_loop (ep # eps) s = run_task ep s"
      using loop_stops[of ep s] by simp
    then show ?thesis using run_task_teardowns(1)[of ep s] by simp
  qed
qed

lemma stop_loop_teardowns:
  "teardowns (events (stop_loop c eps s)) =
     (if Exit 0 \<in> set (events (stop_loop c eps s)) then 1 else 0)"
proof (induction eps arbitrary: s)
  case Nil
  then show ?case by (simp add: teardowns_def)
next
  case (Cons ep eps)
  show ?case
  proof (cases "ended (run_task ep s) = Normal")
    case True
    then have ne: "Exit 0 \<notin> set (events (run_task ep s))"
      using run_task_teardowns(2)[of ep s] by auto
    then have z: "teardowns (events (run_task ep s)) = 0"
      using run_task_teardowns(1)[of ep s] by simp
    show ?thesis
    proof (cases "should_break c ep (final (run_task ep s))")
      case True
      with ne z show ?thesis unfolding stop_loop_step[OF \<open>ended (run_task ep s) = Normal\<close>] by simp
    next
      case False
      with ne z show ?thesis
        unfolding stop_loop_step[OF True] prepend_simps teardowns_append
        using Cons.IH[of "(final (run_task ep s))\<lparr>current_task := None\<rparr>"]
        by (simp add: prepend_simps teardowns_append)
    qed
  next
    case False
    then have "stop_loop c (ep # eps) s = run_task ep s"
      using loop_stops[of ep s] by simp
    then show ?thesis using run_task_teardowns(1)[of ep s] by simp
  qed
qed

lemma run_task_signalled:
  "run_task (signalled i) fresh_actor =
     ([PrepareRun, ProcessTask (token i), LogShutdown 15,
       Save ((token i)\<lparr>task_lock := 0, task_done := 0\<rparr>), CleanupEnv, Exit 0],
      fresh_actor\<lparr>current_task := Some ((token i)\<lparr>task_lock := 0, task_done := 0\<rparr>)\<rparr>,
      Raise SystemExit0)"
  by (simp add: run_task_def signalled_def quiet_def handler_def stop_subprocess_def
      fresh_actor_def Let_def not_is_Exception_SystemExit0)

lemma run_task_store_down:
  "run_task (store_down i) s =
     ([PrepareRun, ProcessTask (token i), Save ((token i)\<lparr>task_done := 1\<rparr>)],
      s\<lparr>current_task := Some ((token i)\<lparr>task_done := 1\<rparr>)\<rparr>,
      Raise io_error)"
  by (simp add: run_task_def store_down_def quiet_def persist_def io_error_def)

lemma stop_loop_max_tasks:
  assumes c: "max_tasks c = int n" "\<not> stop_function c" "max_time c = None"
    and ok: "\<forall>ep\<in>set eps. \<forall>s'. ended (run_task ep s') = Normal"
  shows "tasks_processed s < n \<Longrightarrow> n - tasks_processed s \<le> length eps \<Longrightarrow>
    cycles (events (stop_loop c eps s)) = n - tasks_processed s \<and>
    tasks_processed (final (stop_loop c eps s)) = n \<and>
    ended (stop_loop c eps s) = Normal"
  using ok
proof (induction eps arbitrary: s)
  case Nil
  then show ?case by simp
next
  case (Cons ep eps)
  have n: "ended (run_task ep s) = Normal" using Cons.prems(3) by simp
  have tp: "tasks_processed (final (run_task ep s)) = Suc (tasks_processed s)"
    using run_task_normal[OF n] .
  have br: "should_break c ep (final (run_task ep s)) = (Suc (tasks_processed s) = n)"
    using c tp Cons.prems(1) by (auto simp: should_break_def)
  show ?case
  proof (cases "Suc (tasks_processed s) = n")
    case True
    with br have "stop_loop c (ep # eps) s = run_task ep s"
      using stop_loop_step[OF n, of c eps] by simp
    with True tp n show ?thesis by (simp add: run_task_cycles)
  next
    case False
    let ?s = "(final (run_task ep s))\<lparr>current_task := None\<rparr>"
    have eq: "stop_loop c (ep # eps) s = prepend (events (run_task ep s)) (stop_loop c eps ?s)"
      using br False stop_loop_step[OF n, of c eps] by simp
    have tp': "tasks_processed ?s = Suc (tasks_processed s)" using tp by simp
    have "tasks_processed ?s < n" using tp' False Cons.prems(1) by simp
    moreover have "n - tasks_processed ?s \<le> length eps" using tp' Cons.prems(2) by simp
    moreover have "\<forall>ep\<in>set eps. \<forall>s'. ended (run_task ep s') = Normal" using Cons.prems(3) by simp
    ultimately have ih: "cycles (events (stop_loop c eps ?s)) = n - tasks_processed ?s \<and>
      tasks_processed (final (stop_loop c eps ?s)) = n \<and> ended (stop_loop c eps ?s) = Normal"
      by (rule Cons.IH)
    show ?thesis unfolding eq prepend_simps cycles_append
      using ih tp' Cons.prems(1) by (simp add: run_task_cycles)
  qed
qed

text \<open>
  C1. The claim is that the current task is empty whenever no task cycle is under
  way, also after the loop has stopped on a stop criterion. \<open>RunActor.run\<close>
  breaks out of its loop before it reaches \<open>self.current_task = None\<close>: with
  \<open>max_tasks = 1\<close> the run ends normally after the first task with that task
  still current, and a shutdown handler called then writes the reset pair over
  the finished task and saves it. \<open>AbstractRunActor.run\<close> clears the current
  task right after the cycle.
\<close>

theorem current_task_left_set_after_break:
  "ended (RunActor_run one_task [quiet ''t1'' 1, quiet ''t2'' 2] fresh_actor) = Normal \<and>
   events (RunActor_run one_task [quiet ''t1'' 1, quiet ''t2'' 2] fresh_actor) =
     [PrepareEnv, SetupHandler, PrepareRun, ProcessTask (token ''t1''),
      Save ((token ''t1'')\<lparr>task_done := 1\<rparr>), CleanupRun, CleanupEnv] \<and>
   current_task (final (RunActor_run one_task [quiet ''t1'' 1, quiet ''t2'' 2] fresh_actor)) =
     Some ((token ''t1'')\<lparr>task_done := 1\<rparr>) \<and>
   saved_docs (events (handler 15 SaveOk
     (final (RunActor_run one_task [quiet ''t1'' 1, quiet ''t2'' 2] fresh_actor)))) =
     [(token ''t1'')\<lparr>task_lock := 0, task_done := 0\<rparr>] \<and>
   current_task (final (AbstractRunActor_run [quiet ''t1'' 1] fresh_actor)) = None"
proof -
  have r: "RunActor_run one_task [quiet ''t1'' 1, quiet ''t2'' 2] fresh_actor =
    ([PrepareEnv, SetupHandler, PrepareRun, ProcessTask (token ''t1''),
      Save ((token ''t1'')\<lparr>task_done := 1\<rparr>), CleanupRun, CleanupEnv],
     fresh_actor\<lparr>current_task := Some ((token ''t1'')\<lparr>task_done := 1\<rparr>), tasks_processed := 1\<rparr>,
     Normal)"
    by (simp add: RunActor_run_def run_task_quiet prepend_def finally_cleanup_env_def
        should_break_def one_task_def fresh_actor_def)
  have a: "current_task (final (AbstractRunActor_run [quiet ''t1'' 1] fresh_actor)) = None"
    by (simp add: AbstractRunActor_run_def run_task_quiet prepend_def finally_cleanup_env_def)
  show ?thesis unfolding r using a
    by (simp add: handler_saved_docs fresh_actor_def)
qed

text \<open>
  C7, as the spec states it, fails: \<open>exit(0)\<close> in the handler raises
  \<open>SystemExit\<close> in the interrupted loop, whose \<open>finally\<close> clause runs the
  teardown hook again. A run interrupted in its first task has two teardowns,
  the handler's and the loop's.
\<close>

theorem teardown_twice_counterexample:
  "events (AbstractRunActor_run [signalled ''t1'', quiet ''t2'' 2] fresh_actor) =
     [SetupHandler, PrepareEnv, PrepareRun, ProcessTask (token ''t1''), LogShutdown 15,
      Save ((token ''t1'')\<lparr>task_lock := 0, task_done := 0\<rparr>), CleanupEnv, Exit 0, CleanupEnv] \<and>
   ended (AbstractRunActor_run [signalled ''t1'', quiet ''t2'' 2] fresh_actor) = Raise SystemExit0 \<and>
   teardowns (events (AbstractRunActor_run [signalled ''t1'', quiet ''t2'' 2] fresh_actor)) = 2 \<and>
   events (RunActor_run one_task [signalled ''t1'', quiet ''t2'' 2] fresh_actor) =
     [PrepareEnv, SetupHandler, PrepareRun, ProcessTask (token ''t1''), LogShutdown 15,
      Save ((token ''t1'')\<lparr>task_lock := 0, task_done := 0\<rparr>), CleanupEnv, Exit 0, CleanupEnv] \<and>
   teardowns (events (RunActor_run one_task [signalled ''t1'', quiet ''t2'' 2] fresh_actor)) = 2"
  by (simp add: AbstractRunActor_run_def RunActor_run_def run_task_signalled prepend_def
      finally_cleanup_env_def teardowns_def)

text \<open>
  C7, amended. Whenever a run of either loop ends (it returns or raises), the
  teardown hook has run exactly once if the shutdown handler did not exit during
  the run, also when the loop body raised, and exactly twice if it did: once in
  the handler and once in the loop's \<open>finally\<close> clause.
\<close>

theorem teardown_count:
  "(ended (AbstractRunActor_run eps s) \<noteq> NoReturn \<longrightarrow>
      teardowns (events (AbstractRunActor_run eps s)) =
        (if Exit 0 \<in> set (events (AbstractRunActor_run eps s)) then 2 else 1)) \<and>
   (ended (RunActor_run c eps s) \<noteq> NoReturn \<longrightarrow>
      teardowns (events (RunActor_run c eps s)) =
        (if Exit 0 \<in> set (events (RunActor_run c eps s)) then 2 else 1))"
proof (intro conjI impI)
  assume "ended (AbstractRunActor_run eps s) \<noteq> NoReturn"
  then have "ended (abstract_loop eps s) \<noteq> NoReturn"
    by (simp add: AbstractRunActor_run_def prepend_simps finally_simps)
  then show "teardowns (events (AbstractRunActor_run eps s)) =
        (if Exit 0 \<in> set (events (AbstractRunActor_run eps s)) then 2 else 1)"
    using abstract_loop_teardowns[of eps s]
    by (simp add: AbstractRunActor_run_def prepend_simps finally_simps teardowns_append)
      (simp add: teardowns_def)
next
  assume "ended (RunActor_run c eps s) \<noteq> NoReturn"
  then have "ended (stop_loop c eps s) \<noteq> NoReturn"
    by (simp add: RunActor_run_def prepend_simps finally_simps)
  then show "teardowns (events (RunActor_run c eps s)) =
        (if Exit 0 \<in> set (events (RunActor_run c eps s)) then 2 else 1)"
    using stop_loop_teardowns[of c eps s]
    by (simp add: RunActor_run_def prepend_simps finally_simps teardowns_append)
      (simp add: teardowns_def)
qed

theorem teardown_count_witness:
  "ended (AbstractRunActor_run [quiet ''t1'' 1, store_down ''t2'', quiet ''t3'' 3] fresh_actor) = Raise io_error \<and>
   teardowns (events (AbstractRunActor_run [quiet ''t1'' 1, store_down ''t2'', quiet ''t3'' 3] fresh_actor)) = 1 \<and>
   ended (RunActor_run one_task [signalled ''t1'', quiet ''t2'' 2] fresh_actor) = Raise SystemExit0 \<and>
   teardowns (events (RunActor_run one_task [signalled ''t1'', quiet ''t2'' 2] fresh_actor)) = 2"
proof -
  have a: "AbstractRunActor_run [quiet ''t1'' 1, store_down ''t2'', quiet ''t3'' 3] fresh_actor =
    ([SetupHandler, PrepareEnv,
      PrepareRun, ProcessTask (token ''t1''), Save ((token ''t1'')\<lparr>task_done := 1\<rparr>), CleanupRun,
      PrepareRun, ProcessTask (token ''t2''), Save ((token ''t2'')\<lparr>task_done := 1\<rparr>), CleanupEnv],
     fresh_actor\<lparr>current_task := Some ((token ''t2'')\<lparr>task_done := 1\<rparr>), tasks_processed := 1\<rparr>,
     Raise io_error)"
    by (simp add: AbstractRunActor_run_def run_task_quiet run_task_store_down prepend_def
        finally_cleanup_env_def fresh_actor_def)
  have b: "RunActor_run one_task [signalled ''t1'', quiet ''t2'' 2] fresh_actor =
    ([PrepareEnv, SetupHandler, PrepareRun, ProcessTask (token ''t1''), LogShutdown 15,
      Save ((token ''t1'')\<lparr>task_lock := 0, task_done := 0\<rparr>), CleanupEnv, Exit 0, CleanupEnv],
     fresh_actor\<lparr>current_task := Some ((token ''t1'')\<lparr>task_lock := 0, task_done := 0\<rparr>)\<rparr>,
     Raise SystemExit0)"
    by (simp add: RunActor_run_def run_task_signalled prepend_def finally_cleanup_env_def)
  note th = teardown_count[of "[quiet ''t1'' 1, store_down ''t2'', quiet ''t3'' 3]" fresh_actor
      one_task]
    teardown_count[of "[signalled ''t1'', quiet ''t2'' 2]" fresh_actor one_task]
  from th show ?thesis unfolding a b by simp
qed

text \<open>
  C9. With \<open>max_tasks\<close> set to a positive \<open>n\<close>, no stop function and no time
  limit, an actor that has processed no task yet and a source of more than \<open>n\<close>
  tasks whose cycles all complete, \<open>RunActor.run\<close> executes exactly \<open>n\<close> task
  cycles and returns with the counter at \<open>n\<close>.
\<close>

theorem max_tasks_cycles:
  "0 < n \<and> max_tasks c = int n \<and> \<not> stop_function c \<and> max_time c = None \<and>
   tasks_processed s = 0 \<and> n < length eps \<and>
   (\<forall>ep\<in>set eps. \<forall>s'. ended (run_task ep s') = Normal) \<longrightarrow>
     cycles (events (RunActor_run c eps s)) = n \<and>
     tasks_processed (final (RunActor_run c eps s)) = n \<and>
     ended (RunActor_run c eps s) = Normal"
proof
  assume a: "0 < n \<and> max_tasks c = int n \<and> \<not> stop_function c \<and> max_time c = None \<and>
   tasks_processed s = 0 \<and> n < length eps \<and>
   (\<forall>ep\<in>set eps. \<forall>s'. ended (run_task ep s') = Normal)"
  then have "cycles (events (stop_loop c eps s)) = n - tasks_processed s \<and>
    tasks_processed (final (stop_loop c eps s)) = n \<and>
    ended (stop_loop c eps s) = Normal"
    by (intro stop_loop_max_tasks) simp_all
  with a show "cycles (events (RunActor_run c eps s)) = n \<and>
     tasks_processed (final (RunActor_run c eps s)) = n \<and>
     ended (RunActor_run c eps s) = Normal"
    by (simp add: RunActor_run_def prepend_simps finally_simps cycles_append)
      (simp add: cycles_def)
qed

theorem max_tasks_cycles_witness:
  "(0::nat) < 3 \<and> max_tasks three_tasks = int 3 \<and> \<not> stop_function three_tasks \<and>
   max_time three_tasks = None \<and> tasks_processed fresh_actor = 0 \<and>
   3 < length ten_quiet \<and> length ten_quiet = 10 \<and>
   list_all (\<lambda>ep. ended (run_task ep fresh_actor) = Normal) ten_quiet \<and>
   cycles (events (RunActor_run three_tasks ten_quiet fresh_actor)) = 3 \<and>
   tasks_processed (final (RunActor_run three_tasks ten_quiet fresh_actor)) = 3 \<and>
   ended (RunActor_run three_tasks ten_quiet fresh_actor) = Normal"
proof -
  have c: "max_tasks three_tasks = int 3" "\<not> stop_function three_tasks" "max_time three_tasks = None"
    by (simp_all add: three_tasks_def)
  have f: "tasks_processed fresh_actor = 0" by (simp add: fresh_actor_def)
  have l: "length ten_quiet = 10" by (simp add: ten_quiet_def)
  have q: "\<forall>ep\<in>set ten_quiet. \<forall>s'. ended (run_task ep s') = Normal"
    by (auto simp: ten_quiet_def run_task_quiet)
  from max_tasks_cycles[of 3 three_tasks fresh_actor ten_quiet] c f l q
  show ?thesis by (simp add: list_all_iff)
qed

end
